theory Spec2Isabelle
  imports Complex_Main "HOL-Library.Multiset"
begin

section \<open>Data model (src/types.ts)\<close>

text \<open>
  A TypeScript \<open>number\<close> is an IEEE double.  No handler of the application computes with
  numbers: they are stored, copied and compared with nothing.  The model keeps the finite
  values as reals and the three special values apart.
\<close>

datatype number = Finite real | PosInfinity | NegInfinity | NaN

text \<open>
  A JavaScript string is a sequence of UTF-16 code units.  The model uses \<open>string\<close>, whose
  characters are the code units below 256.  The browser \<open>File\<close> object is kept as its name
  and its bytes; only the name is read by the code.
\<close>

record File =
  file_name :: string
  file_bytes :: "nat list"

text \<open>The fields \<open>id\<close> and \<open>file\<close> of the source are written \<open>id'\<close> and \<open>file'\<close>: \<open>id\<close> is the
  identity function of HOL and \<open>file\<close> is a keyword.\<close>

record Song =
  id' :: string
  name :: string
  url :: string
  file' :: File

record PlayerState =
  isPlaying :: bool
  currentSongId :: "string option"
  currentTime :: number
  duration :: number

text \<open>
  The shared \<open>HTMLAudioElement\<close> held in \<open>audioRef\<close>.  The code writes its \<open>src\<close> and
  \<open>currentTime\<close> properties, reads \<open>currentTime\<close> and \<open>duration\<close>, and calls \<open>load()\<close>,
  \<open>play()\<close> and \<open>pause()\<close>.  What the browser does inside those calls is not part of the
  repository, so the model records the calls in the order they are made.
\<close>

datatype AudioCall = Load | Play | Pause

record Audio =
  audio_src :: string
  audio_currentTime :: number
  audio_duration :: number
  audio_calls :: "AudioCall list"

text \<open>The state of the \<open>App\<close> component: the two \<open>useState\<close> cells and the audio reference.\<close>

record AppState =
  songs :: "Song list"
  playerState :: PlayerState
  audio :: Audio

definition initialPlayerState :: PlayerState where
  "initialPlayerState =
     \<lparr>isPlaying = False, currentSongId = None, currentTime = Finite 0, duration = Finite 0\<rparr>"

section \<open>Player controller (src/App.tsx, lines 46--121)\<close>

text \<open>
  \<open>handlePlay\<close>: \<open>songs.find\<close> is \<^const>\<open>find\<close>; an absent id returns at once.  The id
  already loaded resumes; any other id switches the source, loads, plays and resets the
  visible time.
\<close>

definition handlePlay :: "string \<Rightarrow> AppState \<Rightarrow> AppState" where
  "handlePlay i st =
     (case find (\<lambda>s. id' s = i) (songs st) of
        None \<Rightarrow> st
      | Some songToPlay \<Rightarrow>
          if currentSongId (playerState st) = Some i then
            st\<lparr>audio := (audio st)\<lparr>audio_calls := audio_calls (audio st) @ [Play]\<rparr>,
               playerState := (playerState st)\<lparr>isPlaying := True\<rparr>\<rparr>
          else
            st\<lparr>audio := (audio st)\<lparr>audio_src := url songToPlay,
                                     audio_calls := audio_calls (audio st) @ [Load, Play]\<rparr>,
               playerState := (playerState st)\<lparr>currentSongId := Some i,
                                                 isPlaying := True,
                                                 currentTime := Finite 0\<rparr>\<rparr>)"

definition handlePause :: "AppState \<Rightarrow> AppState" where
  "handlePause st =
     st\<lparr>audio := (audio st)\<lparr>audio_calls := audio_calls (audio st) @ [Pause]\<rparr>,
        playerState := (playerState st)\<lparr>isPlaying := False\<rparr>\<rparr>"

text \<open>\<open>audioRef.current\<close> is created with \<open>new Audio()\<close> and never cleared, so the test
  \<open>if (audioRef.current)\<close> of \<open>handleSeek\<close> always succeeds.\<close>

definition handleSeek :: "number \<Rightarrow> AppState \<Rightarrow> AppState" where
  "handleSeek time st =
     st\<lparr>audio := (audio st)\<lparr>audio_currentTime := time\<rparr>,
        playerState := (playerState st)\<lparr>currentTime := time\<rparr>\<rparr>"

definition onTimeUpdate :: "AppState \<Rightarrow> AppState" where
  "onTimeUpdate st =
     st\<lparr>playerState := (playerState st)\<lparr>currentTime := audio_currentTime (audio st)\<rparr>\<rparr>"

definition onLoadedMetadata :: "AppState \<Rightarrow> AppState" where
  "onLoadedMetadata st =
     st\<lparr>playerState := (playerState st)\<lparr>duration := audio_duration (audio st)\<rparr>\<rparr>"

definition onEnded :: "AppState \<Rightarrow> AppState" where
  "onEnded st =
     st\<lparr>playerState := (playerState st)\<lparr>isPlaying := False, currentTime := Finite 0\<rparr>\<rparr>"

text \<open>
  The states the application can be in.  It starts with the initial player state; the
  handlers and the three listeners run one at a time; between two of them the song list
  may change (upload, rename, reorder) and the audio element may change by itself (the
  position advances, the duration becomes known), which \<open>environment\<close> covers for every
  list and every audio element.
\<close>

inductive reachable :: "AppState \<Rightarrow> bool" where
  initial: "reachable \<lparr>songs = [], playerState = initialPlayerState, audio = a\<rparr>"
| environment: "reachable st \<Longrightarrow> reachable (st\<lparr>songs := ss, audio := a\<rparr>)"
| play: "reachable st \<Longrightarrow> reachable (handlePlay i st)"
| pause: "reachable st \<Longrightarrow> reachable (handlePause st)"
| seek: "reachable st \<Longrightarrow> reachable (handleSeek time st)"
| timeupdate: "reachable st \<Longrightarrow> reachable (onTimeUpdate st)"
| loadedmetadata: "reachable st \<Longrightarrow> reachable (onLoadedMetadata st)"
| ended: "reachable st \<Longrightarrow> reachable (onEnded st)"

section \<open>Song list store (src/App.tsx, lines 83--87 and 125--148; src/components/SongCard.tsx)\<close>

subsection \<open>Rename\<close>

text \<open>
  \<open>String.prototype.trim\<close> removes white space and line terminators from both ends.  Among
  the code units below 256 these are tab, line feed, vertical tab, form feed, carriage
  return, space and the no-break space.
\<close>

definition isWhiteSpace :: "char \<Rightarrow> bool" where
  "isWhiteSpace c =
     List.member [CHR 0x09, CHR 0x0A, CHR 0x0B, CHR 0x0C, CHR 0x0D, CHR 0x20, CHR 0xA0] c"

definition trim :: "string \<Rightarrow> string" where
  "trim s = rev (dropWhile isWhiteSpace (rev (dropWhile isWhiteSpace s)))"

definition handleRename :: "string \<Rightarrow> string \<Rightarrow> Song list \<Rightarrow> Song list" where
  "handleRename i newName prev = map (\<lambda>song. if id' song = i then song\<lparr>name := newName\<rparr> else song) prev"

text \<open>The local state of one \<open>SongCard\<close>: the text of the inline editor and whether it is open.\<close>

record CardState =
  editName :: string
  isEditing :: bool

text \<open>
  \<open>handleSaveName\<close> of the card showing \<open>song\<close>.  A string is truthy when it is not empty.
  The card calls \<open>onRename\<close>, which is \<open>handleRename\<close>, with the text as typed.
\<close>

definition handleSaveName :: "Song \<Rightarrow> CardState \<Rightarrow> Song list \<Rightarrow> CardState \<times> Song list" where
  "handleSaveName song c ss =
     (if trim (editName c) \<noteq> [] then
        (c\<lparr>isEditing := False\<rparr>, handleRename (id' song) (editName c) ss)
      else
        (c\<lparr>editName := name song, isEditing := False\<rparr>, ss))"

subsection \<open>Upload\<close>

text \<open>
  \<open>file.name.replace(/\.[^/.]+$/, "")\<close>.  The pattern matches at a position when a dot
  stands there and the rest of the string is not empty and holds neither a slash nor a
  dot.  \<open>replace\<close> with a pattern that is not global removes the leftmost match.
\<close>

definition matchesExtension :: "string \<Rightarrow> bool" where
  "matchesExtension s =
     (case s of
        [] \<Rightarrow> False
      | c # cs \<Rightarrow> c = CHR ''.'' \<and> cs \<noteq> [] \<and> list_all (\<lambda>d. d \<noteq> CHR ''/'' \<and> d \<noteq> CHR ''.'') cs)"

fun removeExtension :: "string \<Rightarrow> string" where
  "removeExtension [] = []"
| "removeExtension (c # cs) = (if matchesExtension (c # cs) then [] else c # removeExtension cs)"

text \<open>
  \<open>crypto.randomUUID()\<close> and \<open>URL.createObjectURL(file)\<close> are answered by the browser.  In a
  call of \<open>handleFilesAdded\<close> they run once for each file, in the order of the files;
  \<open>uuid k\<close> and \<open>objectURL k\<close> stand for what the browser returns for the file at index \<open>k\<close>.
\<close>

definition handleFilesAdded ::
  "(nat \<Rightarrow> string) \<Rightarrow> (nat \<Rightarrow> string) \<Rightarrow> File list \<Rightarrow> Song list \<Rightarrow> Song list" where
  "handleFilesAdded uuid objectURL files prev =
     (let newSongs =
            map (\<lambda>(k, f). \<lparr>id' = uuid k,
                           name = removeExtension (file_name f),
                           url = objectURL k,
                           file' = f\<rparr>)
                (enumerate 0 files)
      in prev @ newSongs)"

text \<open>A sequence of uploads, each with the answers of the browser for it.\<close>

fun addSongsSeq ::
  "((nat \<Rightarrow> string) \<times> (nat \<Rightarrow> string) \<times> File list) list \<Rightarrow> Song list \<Rightarrow> Song list" where
  "addSongsSeq [] ss = ss"
| "addSongsSeq ((uuid, objectURL, files) # calls) ss =
     addSongsSeq calls (handleFilesAdded uuid objectURL files ss)"

subsection \<open>Reorder\<close>

text \<open>
  \<open>Array.prototype.findIndex\<close>: the index of the first element that satisfies the
  predicate, \<open>-1\<close> when there is none.
\<close>

fun findIndexFrom :: "('a \<Rightarrow> bool) \<Rightarrow> int \<Rightarrow> 'a list \<Rightarrow> int" where
  "findIndexFrom p k [] = - 1"
| "findIndexFrom p k (x # xs) = (if p x then k else findIndexFrom p (k + 1) xs)"

definition findIndex :: "('a \<Rightarrow> bool) \<Rightarrow> 'a list \<Rightarrow> int" where
  "findIndex p xs = findIndexFrom p 0 xs"

text \<open>
  \<open>Array.prototype.splice(start, deleteCount, ...items)\<close> on integer arguments: a negative
  \<open>start\<close> counts from the end, both are clamped to the array.  The result is the removed
  elements and the array after the call.
\<close>

definition splice :: "'a list \<Rightarrow> int \<Rightarrow> int \<Rightarrow> 'a list \<Rightarrow> 'a list \<times> 'a list" where
  "splice xs start deleteCount items =
     (let len = int (length xs);
          actualStart = (if start < 0 then max (len + start) 0 else min start len);
          actualDeleteCount = min (max deleteCount 0) (len - actualStart)
      in (take (nat actualDeleteCount) (drop (nat actualStart) xs),
          take (nat actualStart) xs @ items @ drop (nat (actualStart + actualDeleteCount)) xs))"

text \<open>
  Modelled from the spec: \<open>arrayMove\<close> is imported from the package \<open>@dnd-kit/sortable\<close>
  (src/App.tsx, line 12) and its text is not under src/.  The spec calls it the pure
  sequence-splice operation, an arbitrary old-index to new-index relocation.  The package
  defines it with two splices on a copy of the array:
  \<^verbatim>\<open>const newArray = array.slice();\<close>
  \<^verbatim>\<open>newArray.splice(to < 0 ? newArray.length + to : to, 0, newArray.splice(from, 1)[0]);\<close>
  \<^verbatim>\<open>return newArray;\<close>
  The arguments of the outer call are evaluated from left to right, so the position is
  computed before the inner call removes the element.  Reading index 0 of an empty array
  gives \<open>undefined\<close>, which the outer call then inserts; an array entry is therefore an
  option, \<open>None\<close> standing for \<open>undefined\<close>.
\<close>

definition arrayMove :: "'a list \<Rightarrow> int \<Rightarrow> int \<Rightarrow> 'a option list" where
  "arrayMove array from to =
     (let newArray = map Some array;
          start = (if to < 0 then int (length newArray) + to else to);
          (removed, newArray1) = splice newArray from 1 [];
          item = (case removed of [] \<Rightarrow> None | r # _ \<Rightarrow> r)
      in snd (splice newArray1 start 0 [item]))"

text \<open>
  The drag library reports the dragged item and the item it was dropped on, if any; the
  handler reads their \<open>id\<close> only.
\<close>

record DragEndEvent =
  active :: string
  over :: "string option"

text \<open>
  \<open>handleDragEnd\<close>, as the list of songs after the event.  Without a drop target, or with
  the item dropped on itself, \<open>setSongs\<close> is not called and the list stays as it is.
\<close>

definition handleDragEnd :: "DragEndEvent \<Rightarrow> Song list \<Rightarrow> Song option list" where
  "handleDragEnd event items =
     (case over event of
        None \<Rightarrow> map Some items
      | Some overId \<Rightarrow>
          if active event \<noteq> overId then
            (let oldIndex = findIndex (\<lambda>i. id' i = active event) items;
                 newIndex = findIndex (\<lambda>i. id' i = overId) items
             in arrayMove items oldIndex newIndex)
          else map Some items)"

text \<open>
  For the proofs: the list with the element at index \<open>f\<close> taken out and put back at index
  \<open>t\<close>, which is what \<open>arrayMove\<close> returns for two indices of the list.
\<close>

definition relocate :: "'a list \<Rightarrow> nat \<Rightarrow> nat \<Rightarrow> 'a list" where
  "relocate xs f t =
     take t (take f xs @ drop (Suc f) xs) @ [xs ! f] @ drop t (take f xs @ drop (Suc f) xs)"

section \<open>Sample data\<close>

definition mkSong :: "string \<Rightarrow> string \<Rightarrow> Song" where
  "mkSong i n = \<lparr>id' = i, name = n, url = ''blob:'' @ i,
                 file' = \<lparr>file_name = n @ ''.mp3'', file_bytes = []\<rparr>\<rparr>"

definition songA :: Song where "songA = mkSong ''a'' ''Jingle Bells''"
definition songB :: Song where "songB = mkSong ''b'' ''Silent Night''"
definition songC :: Song where "songC = mkSong ''c'' ''Noel''"

definition silence :: Audio where
  "silence = \<lparr>audio_src = [], audio_currentTime = Finite 0, audio_duration = NaN, audio_calls = []\<rparr>"

text \<open>Song \<open>a\<close> is loaded and paused at second 42 of 180.\<close>

definition pausedOnA :: AppState where
  "pausedOnA =
     \<lparr>songs = [songA, songB, songC],
      playerState = \<lparr>isPlaying = False, currentSongId = Some ''a'',
                     currentTime = Finite 42, duration = Finite 180\<rparr>,
      audio = \<lparr>audio_src = ''blob:a'', audio_currentTime = Finite 42,
               audio_duration = Finite 180, audio_calls = [Load, Play, Pause]\<rparr>\<rparr>"

section \<open>Theorems: player controller\<close>

lemma handlePlay_found:
  assumes "find (\<lambda>s. id' s = i) (songs st) = Some s"
  shows "handlePlay i st =
     (if currentSongId (playerState st) = Some i then
        st\<lparr>audio := (audio st)\<lparr>audio_calls := audio_calls (audio st) @ [Play]\<rparr>,
           playerState := (playerState st)\<lparr>isPlaying := True\<rparr>\<rparr>
      else
        st\<lparr>audio := (audio st)\<lparr>audio_src := url s,
                                 audio_calls := audio_calls (audio st) @ [Load, Play]\<rparr>,
           playerState := (playerState st)\<lparr>currentSongId := Some i,
                                             isPlaying := True,
                                             currentTime := Finite 0\<rparr>\<rparr>)"
  using assms by (simp add: handlePlay_def)

lemma find_distinct_member:
  assumes "distinct (map f xs)" and "x \<in> set xs"
  shows "find (\<lambda>s. f s = f x) xs = Some x"
  using assms
proof (induction xs)
  case Nil
  then show ?case by simp
next
  case (Cons y ys)
  then show ?case by (cases "y = x") (auto simp: image_iff)
qed

lemma find_member_ex:
  assumes "x \<in> set xs"
  shows "\<exists>y. find (\<lambda>s. f s = f x) xs = Some y \<and> f y = f x"
  using assms by (induction xs) auto

text \<open>
  Claim C1.  In every reachable state, \<open>isPlaying = true\<close> implies that \<open>currentSongId\<close> is
  set (not \<open>null\<close>).
\<close>

theorem C1_playing_implies_song_set:
  assumes "reachable st"
  shows "isPlaying (playerState st) \<longrightarrow> currentSongId (playerState st) \<noteq> None"
  using assms
proof (induction rule: reachable.induct)
  case (initial a)
  show ?case by (simp add: initialPlayerState_def)
next
  case (environment st ss a)
  then show ?case by simp
next
  case (play st i)
  then show ?case
    by (simp add: handlePlay_def split: option.splits)
next
  case (pause st)
  show ?case by (simp add: handlePause_def)
next
  case (seek st time)
  then show ?case by (simp add: handleSeek_def)
next
  case (timeupdate st)
  then show ?case by (simp add: onTimeUpdate_def)
next
  case (loadedmetadata st)
  then show ?case by (simp add: onLoadedMetadata_def)
next
  case (ended st)
  show ?case by (simp add: onEnded_def)
qed

theorem C1_playing_implies_song_set_witness:
  "reachable (handlePlay ''a'' (\<lparr>songs = [], playerState = initialPlayerState, audio = silence\<rparr>
                                 \<lparr>songs := [songA], audio := silence\<rparr>))
   \<and> isPlaying (playerState (handlePlay ''a''
         (\<lparr>songs = [], playerState = initialPlayerState, audio = silence\<rparr>
            \<lparr>songs := [songA], audio := silence\<rparr>)))
   \<and> currentSongId (playerState (handlePlay ''a''
         (\<lparr>songs = [], playerState = initialPlayerState, audio = silence\<rparr>
            \<lparr>songs := [songA], audio := silence\<rparr>))) \<noteq> None"
proof -
  let ?st = "handlePlay ''a'' (\<lparr>songs = [], playerState = initialPlayerState, audio = silence\<rparr>
                                 \<lparr>songs := [songA], audio := silence\<rparr>)"
  have r: "reachable ?st"
    by (rule reachable.play, rule reachable.environment, rule reachable.initial)
  have p: "isPlaying (playerState ?st)"
    by (simp add: handlePlay_def songA_def mkSong_def initialPlayerState_def)
  from C1_playing_implies_song_set [OF r] p r show ?thesis by simp
qed

text \<open>
  Claim C6.  In a song list (ids unique, as the data model requires) that contains two
  different songs \<open>A\<close> and \<open>B\<close>, with \<open>A\<close> the current song, \<open>play\<close> of \<open>B\<close>'s id makes \<open>B\<close> the
  current song, sets \<open>isPlaying\<close>, resets \<open>currentTime\<close> to 0 and sets the source of the
  audio element to \<open>B\<close>'s url, then loads and plays; the prior \<open>currentTime\<close> is arbitrary.
\<close>

theorem C6_play_other_song:
  assumes "distinct (map id' (songs st))"
    and "A \<in> set (songs st)" and "B \<in> set (songs st)" and "B \<noteq> A"
    and "currentSongId (playerState st) = Some (id' A)"
  shows "currentSongId (playerState (handlePlay (id' B) st)) = Some (id' B)
       \<and> isPlaying (playerState (handlePlay (id' B) st))
       \<and> currentTime (playerState (handlePlay (id' B) st)) = Finite 0
       \<and> audio_src (audio (handlePlay (id' B) st)) = url B
       \<and> audio_calls (audio (handlePlay (id' B) st)) = audio_calls (audio st) @ [Load, Play]"
proof -
  have f: "find (\<lambda>s. id' s = id' B) (songs st) = Some B"
    using assms(1,3) by (rule find_distinct_member)
  have "id' B \<noteq> id' A"
    using assms(1-4) by (meson distinct_map inj_onD)
  then have n: "currentSongId (playerState st) \<noteq> Some (id' B)"
    using assms(5) by simp
  show ?thesis
    by (simp add: handlePlay_found [OF f] n)
qed

theorem C6_play_other_song_witness:
  "distinct (map id' (songs pausedOnA))
   \<and> songA \<in> set (songs pausedOnA) \<and> songB \<in> set (songs pausedOnA) \<and> songB \<noteq> songA
   \<and> currentSongId (playerState pausedOnA) = Some (id' songA)
   \<and> currentTime (playerState pausedOnA) = Finite 42
   \<and> currentSongId (playerState (handlePlay (id' songB) pausedOnA)) = Some ''b''
   \<and> isPlaying (playerState (handlePlay (id' songB) pausedOnA))
   \<and> currentTime (playerState (handlePlay (id' songB) pausedOnA)) = Finite 0
   \<and> audio_src (audio (handlePlay (id' songB) pausedOnA)) = ''blob:b''"
proof -
  have h1: "distinct (map id' (songs pausedOnA))"
    by (simp add: pausedOnA_def songA_def songB_def songC_def mkSong_def)
  have h2: "songA \<in> set (songs pausedOnA)" and h3: "songB \<in> set (songs pausedOnA)"
    by (simp_all add: pausedOnA_def)
  have h4: "songB \<noteq> songA"
    by (simp add: songA_def songB_def mkSong_def)
  have h5: "currentSongId (playerState pausedOnA) = Some (id' songA)"
    by (simp add: pausedOnA_def songA_def mkSong_def)
  have h6: "currentTime (playerState pausedOnA) = Finite 42"
    by (simp add: pausedOnA_def)
  have b: "id' songB = ''b''" "url songB = ''blob:b''"
    by (simp_all add: songB_def mkSong_def)
  from C6_play_other_song [OF h1 h2 h3 h4 h5] h1 h2 h3 h4 h5 h6 b show ?thesis
    by simp
qed

text \<open>
  Claim C7.  When the list contains a song with the id and that id is already the current
  one, \<open>play\<close> sets \<open>isPlaying\<close> and leaves \<open>currentSongId\<close>, \<open>currentTime\<close> and \<open>duration\<close>
  as they are; the audio element keeps its source and receives \<open>play()\<close> only, no \<open>load()\<close>.
\<close>

theorem C7_play_current_song_resumes:
  assumes "s \<in> set (songs st)"
    and "currentSongId (playerState st) = Some (id' s)"
  shows "isPlaying (playerState (handlePlay (id' s) st))
       \<and> currentSongId (playerState (handlePlay (id' s) st)) = currentSongId (playerState st)
       \<and> currentTime (playerState (handlePlay (id' s) st)) = currentTime (playerState st)
       \<and> duration (playerState (handlePlay (id' s) st)) = duration (playerState st)
       \<and> audio_src (audio (handlePlay (id' s) st)) = audio_src (audio st)
       \<and> audio_calls (audio (handlePlay (id' s) st)) = audio_calls (audio st) @ [Play]"
proof -
  obtain y where f: "find (\<lambda>x. id' x = id' s) (songs st) = Some y"
    using find_member_ex [OF assms(1)] by blast
  show ?thesis
    by (simp add: handlePlay_found [OF f] assms(2))
qed

theorem C7_play_current_song_resumes_witness:
  "songA \<in> set (songs pausedOnA)
   \<and> currentSongId (playerState pausedOnA) = Some (id' songA)
   \<and> isPlaying (playerState (handlePlay (id' songA) pausedOnA))
   \<and> currentSongId (playerState (handlePlay (id' songA) pausedOnA)) = Some ''a''
   \<and> currentTime (playerState (handlePlay (id' songA) pausedOnA)) = Finite 42
   \<and> duration (playerState (handlePlay (id' songA) pausedOnA)) = Finite 180
   \<and> audio_src (audio (handlePlay (id' songA) pausedOnA)) = ''blob:a''
   \<and> audio_calls (audio (handlePlay (id' songA) pausedOnA)) = [Load, Play, Pause, Play]"
proof -
  have h1: "songA \<in> set (songs pausedOnA)"
    by (simp add: pausedOnA_def)
  have h2: "currentSongId (playerState pausedOnA) = Some (id' songA)"
    by (simp add: pausedOnA_def songA_def mkSong_def)
  have v: "playerState pausedOnA = \<lparr>isPlaying = False, currentSongId = Some ''a'',
                     currentTime = Finite 42, duration = Finite 180\<rparr>"
    "audio_src (audio pausedOnA) = ''blob:a''"
    "audio_calls (audio pausedOnA) = [Load, Play, Pause]"
    by (simp_all add: pausedOnA_def)
  from C7_play_current_song_resumes [OF h1 h2] h1 h2 show ?thesis
    by (simp add: v)
qed

text \<open>
  Claim C8.  In every state, the \<open>ended\<close> notification of the audio element sets
  \<open>isPlaying\<close> to false and \<open>currentTime\<close> to 0 and leaves \<open>currentSongId\<close> and \<open>duration\<close>
  (and the song list and the audio element) as they are.
\<close>

theorem C8_ended_stops_and_rewinds:
  "isPlaying (playerState (onEnded st)) = False
   \<and> currentTime (playerState (onEnded st)) = Finite 0
   \<and> currentSongId (playerState (onEnded st)) = currentSongId (playerState st)
   \<and> duration (playerState (onEnded st)) = duration (playerState st)
   \<and> songs (onEnded st) = songs st
   \<and> audio (onEnded st) = audio st"
  by (simp add: onEnded_def)

text \<open>
  Claim C10.  When the list contains a song \<open>B\<close> whose id is not the current one, \<open>play\<close> of
  \<open>B\<close>'s id switches to \<open>B\<close> and leaves \<open>duration\<close> as it was.  Pause, seek and the position
  and ended notifications leave it too; the \<open>loadedmetadata\<close> notification is the one that
  overwrites it, with the duration of the audio element.
\<close>

theorem C10_play_keeps_duration:
  assumes "B \<in> set (songs st)"
    and "currentSongId (playerState st) \<noteq> Some (id' B)"
  shows "currentSongId (playerState (handlePlay (id' B) st)) = Some (id' B)
       \<and> duration (playerState (handlePlay (id' B) st)) = duration (playerState st)
       \<and> duration (playerState (handlePause (handlePlay (id' B) st))) = duration (playerState st)
       \<and> duration (playerState (handleSeek t (handlePlay (id' B) st))) = duration (playerState st)
       \<and> duration (playerState (onTimeUpdate (handlePlay (id' B) st))) = duration (playerState st)
       \<and> duration (playerState (onEnded (handlePlay (id' B) st))) = duration (playerState st)
       \<and> duration (playerState (onLoadedMetadata (handlePlay (id' B) st)))
           = audio_duration (audio st)"
proof -
  obtain y where f: "find (\<lambda>x. id' x = id' B) (songs st) = Some y"
    using find_member_ex [OF assms(1)] by blast
  show ?thesis
    by (simp add: handlePlay_found [OF f] assms(2) handlePause_def handleSeek_def
        onTimeUpdate_def onEnded_def onLoadedMetadata_def)
qed

theorem C10_play_keeps_duration_witness:
  "songB \<in> set (songs pausedOnA)
   \<and> currentSongId (playerState pausedOnA) \<noteq> Some (id' songB)
   \<and> currentSongId (playerState (handlePlay (id' songB) pausedOnA)) = Some ''b''
   \<and> duration (playerState (handlePlay (id' songB) pausedOnA)) = Finite 180"
proof -
  have h1: "songB \<in> set (songs pausedOnA)"
    by (simp add: pausedOnA_def)
  have h2: "currentSongId (playerState pausedOnA) \<noteq> Some (id' songB)"
    by (simp add: pausedOnA_def songB_def mkSong_def)
  have v: "duration (playerState pausedOnA) = Finite 180" "id' songB = ''b''"
    by (simp_all add: pausedOnA_def songB_def mkSong_def)
  from C10_play_keeps_duration [OF h1 h2] h1 h2 show ?thesis
    by (simp add: v)
qed

section \<open>Theorems: rename\<close>

lemma handleRename_absent:
  assumes "i \<notin> id' ` set ss"
  shows "handleRename i newName ss = ss"
  unfolding handleRename_def using assms by (induction ss) auto

lemma handleRename_nth:
  assumes "k < length ss"
  shows "handleRename i n ss ! k = (if id' (ss ! k) = i then (ss ! k)\<lparr>name := n\<rparr> else ss ! k)"
  using assms by (simp add: handleRename_def)

text \<open>
  Claim C5.  Committing a name that is empty or white space only leaves the song list as
  it is, whatever the id; and a rename for an id that no song has leaves the list as it
  is, whatever the name.
\<close>

theorem C5_rename_blank_or_absent_unchanged:
  "(trim (editName c) = [] \<longrightarrow> snd (handleSaveName song c ss) = ss)
   \<and> (id' song \<notin> id' ` set ss \<longrightarrow> snd (handleSaveName song c ss) = ss)
   \<and> (i \<notin> id' ` set ss \<longrightarrow> handleRename i newName ss = ss)"
  by (simp add: handleSaveName_def handleRename_absent)

theorem C5_rename_blank_or_absent_unchanged_witness:
  "trim (editName \<lparr>editName = '' '' @ [CHR 0x09] @ '' '', isEditing = True\<rparr>) = []
   \<and> snd (handleSaveName songA \<lparr>editName = '' '' @ [CHR 0x09] @ '' '', isEditing = True\<rparr> [songA, songB]) = [songA, songB]
   \<and> id' songC \<notin> id' ` set [songA, songB]
   \<and> snd (handleSaveName songC \<lparr>editName = ''Carol'', isEditing = True\<rparr> [songA, songB]) = [songA, songB]
   \<and> ''zz'' \<notin> id' ` set [songA, songB]
   \<and> handleRename ''zz'' ''Carol'' [songA, songB] = [songA, songB]"
proof -
  have h1: "trim (editName \<lparr>editName = '' '' @ [CHR 0x09] @ '' '', isEditing = True\<rparr>) = []"
    by (simp add: trim_def isWhiteSpace_def)
  have h2: "id' songC \<notin> id' ` set [songA, songB]"
    by (simp add: songA_def songB_def songC_def mkSong_def)
  have h3: "''zz'' \<notin> id' ` set [songA, songB]"
    by (simp add: songA_def songB_def mkSong_def)
  from C5_rename_blank_or_absent_unchanged [of "\<lparr>editName = '' '' @ [CHR 0x09] @ '' '', isEditing = True\<rparr>" songA "[songA, songB]" "''zz''" "''Carol''"]
    C5_rename_blank_or_absent_unchanged [of "\<lparr>editName = ''Carol'', isEditing = True\<rparr>" songC "[songA, songB]" "''zz''" "''Carol''"]
    h1 h2 h3
  show ?thesis by blast
qed

text \<open>
  Claim C4 says that renaming a song to \<open>"  Carol  "\<close> stores the trimmed \<open>"Carol"\<close>.  The
  card trims the text only to test whether it is empty and passes the text as typed.
\<close>

theorem C4_rename_trimmed_counterexample:
  "trim ''  Carol  '' = ''Carol''
   \<and> songA \<in> set [songA, songB]
   \<and> name (snd (handleSaveName songA \<lparr>editName = ''  Carol  '', isEditing = True\<rparr> [songA, songB]) ! 0) = ''  Carol  ''
   \<and> name (snd (handleSaveName songA \<lparr>editName = ''  Carol  '', isEditing = True\<rparr> [songA, songB]) ! 0) \<noteq> ''Carol''"
  by (simp add: handleSaveName_def handleRename_def trim_def isWhiteSpace_def songA_def songB_def mkSong_def)

text \<open>
  Claim C4, amended.  When the list contains the song and the new name is not empty after
  trimming, the rename stores the name exactly as typed, white space at both ends
  included, in every song with that id; ids, urls, files and the other names stay, and
  the editor closes.
\<close>

theorem C4_rename_stores_text_as_typed:
  assumes "song \<in> set ss" and "trim (editName c) \<noteq> []"
  shows "length (snd (handleSaveName song c ss)) = length ss
     \<and> (\<forall>k < length ss.
          id' (snd (handleSaveName song c ss) ! k) = id' (ss ! k)
        \<and> url (snd (handleSaveName song c ss) ! k) = url (ss ! k)
        \<and> file' (snd (handleSaveName song c ss) ! k) = file' (ss ! k)
        \<and> name (snd (handleSaveName song c ss) ! k)
            = (if id' (ss ! k) = id' song then editName c else name (ss ! k)))
     \<and> (\<exists>s \<in> set (snd (handleSaveName song c ss)). id' s = id' song \<and> name s = editName c)
     \<and> fst (handleSaveName song c ss) = c\<lparr>isEditing := False\<rparr>"
proof -
  have r: "snd (handleSaveName song c ss) = handleRename (id' song) (editName c) ss"
    and c: "fst (handleSaveName song c ss) = c\<lparr>isEditing := False\<rparr>"
    using assms(2) by (simp_all add: handleSaveName_def)
  have len: "length (handleRename (id' song) (editName c) ss) = length ss"
    by (simp add: handleRename_def)
  have nth: "\<forall>k < length ss.
          id' (handleRename (id' song) (editName c) ss ! k) = id' (ss ! k)
        \<and> url (handleRename (id' song) (editName c) ss ! k) = url (ss ! k)
        \<and> file' (handleRename (id' song) (editName c) ss ! k) = file' (ss ! k)
        \<and> name (handleRename (id' song) (editName c) ss ! k)
            = (if id' (ss ! k) = id' song then editName c else name (ss ! k))"
    by (simp add: handleRename_nth)
  have "song\<lparr>name := editName c\<rparr> \<in> set (handleRename (id' song) (editName c) ss)"
    using assms(1) by (force simp: handleRename_def image_iff)
  then have ex: "\<exists>s \<in> set (handleRename (id' song) (editName c) ss). id' s = id' song \<and> name s = editName c"
    by (intro bexI [where x = "song\<lparr>name := editName c\<rparr>"]) simp_all
  show ?thesis
    unfolding r c using len nth ex by blast
qed

theorem C4_rename_stores_text_as_typed_witness:
  "songA \<in> set [songA, songB]
   \<and> trim (editName \<lparr>editName = ''  Carol  '', isEditing = True\<rparr>) \<noteq> []
   \<and> map name (snd (handleSaveName songA \<lparr>editName = ''  Carol  '', isEditing = True\<rparr> [songA, songB])) = [''  Carol  '', ''Silent Night'']"
proof -
  let ?c = "\<lparr>editName = ''  Carol  '', isEditing = True\<rparr>"
  have h1: "songA \<in> set [songA, songB]" by simp
  have h2: "trim (editName ?c) \<noteq> []"
    by (simp add: trim_def isWhiteSpace_def)
  have A: "id' songA = ''a''" "id' songB = ''b''" "name songB = ''Silent Night''"
    by (simp_all add: songA_def songB_def mkSong_def)
  from C4_rename_stores_text_as_typed [OF h1 h2] have
    len: "length (snd (handleSaveName songA ?c [songA, songB])) = 2"
    and n: "\<forall>k < 2. name (snd (handleSaveName songA ?c [songA, songB]) ! k)
            = (if id' ([songA, songB] ! k) = id' songA then editName ?c else name ([songA, songB] ! k))"
    by simp_all
  from n have n0: "name (snd (handleSaveName songA ?c [songA, songB]) ! 0) = ''  Carol  ''"
    by simp
  from n have n1: "name (snd (handleSaveName songA ?c [songA, songB]) ! 1) = ''Silent Night''"
    by (simp add: A)
  have "map name (snd (handleSaveName songA ?c [songA, songB])) = [''  Carol  '', ''Silent Night'']"
    using len n0 n1 by (intro nth_equalityI) (auto simp: less_Suc_eq numeral_2_eq_2)
  with h1 h2 show ?thesis by simp
qed

section \<open>Theorems: upload\<close>

lemma removeExtension_strip:
  assumes "ext \<noteq> []" and "CHR ''.'' \<notin> set ext" and "CHR ''/'' \<notin> set ext"
  shows "removeExtension (base @ CHR ''.'' # ext) = base"
proof (induction base)
  case Nil
  have "matchesExtension (CHR ''.'' # ext)"
    using assms by (auto simp: matchesExtension_def list_all_iff)
  then show ?case by simp
next
  case (Cons c cs)
  have "\<not> matchesExtension (c # cs @ CHR ''.'' # ext)"
    by (simp add: matchesExtension_def)
  with Cons show ?case by simp
qed

lemma removeExtension_none:
  assumes "CHR ''.'' \<notin> set s"
  shows "removeExtension s = s"
  using assms by (induction s) (auto simp: matchesExtension_def)

lemma handleFilesAdded_append:
  "handleFilesAdded u ou files prev =
     prev @ map (\<lambda>(k, f). \<lparr>id' = u k, name = removeExtension (file_name f), url = ou k, file' = f\<rparr>)
              (enumerate 0 files)"
  by (simp add: handleFilesAdded_def)

lemma newSongs_files:
  "map file' (map (\<lambda>(k, f). \<lparr>id' = u k, name = removeExtension (file_name f), url = ou k, file' = f\<rparr>)
              (enumerate n files)) = files"
  by (induction files arbitrary: n) simp_all

lemma newSongs_names:
  "map name (map (\<lambda>(k, f). \<lparr>id' = u k, name = removeExtension (file_name f), url = ou k, file' = f\<rparr>)
              (enumerate n files)) = map (\<lambda>f. removeExtension (file_name f)) files"
  by (induction files arbitrary: n) simp_all

lemma newSongs_ids:
  "map id' (map (\<lambda>(k, f). \<lparr>id' = u k, name = removeExtension (file_name f), url = ou k, file' = f\<rparr>)
              (enumerate n files)) = map u [n ..< n + length files]"
  by (induction files arbitrary: n) (simp_all add: upt_rec)

lemma newSongs_urls:
  "map url (map (\<lambda>(k, f). \<lparr>id' = u k, name = removeExtension (file_name f), url = ou k, file' = f\<rparr>)
              (enumerate n files)) = map ou [n ..< n + length files]"
  by (induction files arbitrary: n) (simp_all add: upt_rec)

lemma addSongsSeq_files:
  "map file' (addSongsSeq calls ss) = map file' ss @ concat (map (\<lambda>(u, ou, fs). fs) calls)"
  by (induction calls ss rule: addSongsSeq.induct)
     (simp_all add: handleFilesAdded_append newSongs_files del: map_map)

lemma addSongsSeq_names:
  "map name (addSongsSeq calls ss) =
     map name ss @ map (\<lambda>f. removeExtension (file_name f)) (concat (map (\<lambda>(u, ou, fs). fs) calls))"
  by (induction calls ss rule: addSongsSeq.induct)
     (simp_all add: handleFilesAdded_append newSongs_names del: map_map)

lemma addSongsSeq_length:
  "length (addSongsSeq calls ss) = length ss + sum_list (map (\<lambda>(u, ou, fs). length fs) calls)"
  by (induction calls ss rule: addSongsSeq.induct)
     (simp_all add: handleFilesAdded_append)

lemma addSongsSeq_prefix:
  "take (length ss) (addSongsSeq calls ss) = ss"
proof (induction calls ss rule: addSongsSeq.induct)
  case (1 ss)
  show ?case by simp
next
  case (2 u ou files calls ss)
  have "take (length ss) (addSongsSeq calls (handleFilesAdded u ou files ss))
        = take (length ss) (take (length (handleFilesAdded u ou files ss))
             (addSongsSeq calls (handleFilesAdded u ou files ss)))"
    by (simp add: handleFilesAdded_append min_def)
  also have "\<dots> = take (length ss) (handleFilesAdded u ou files ss)"
    by (simp only: "2.IH")
  also have "\<dots> = ss"
    by (simp add: handleFilesAdded_append)
  finally show ?case by simp
qed

text \<open>
  Claim C9.  One upload keeps the songs that were there and appends one song for each
  file, in the order of the files; the new song holds the file, the name of the file
  without its extension, and the id and url the browser gave for it.  A sequence of
  uploads from the empty list gives as many songs as files were passed in all, in the
  order of the calls and, within a call, of the files.  The extension removed is the last
  dot and what follows it, when that is not empty and holds no slash; a name without a
  dot is kept whole.
\<close>

theorem C9_uploads_append_in_order:
  "take (length prev) (handleFilesAdded uuid objectURL files prev) = prev
   \<and> length (handleFilesAdded uuid objectURL files prev) = length prev + length files
   \<and> map file' (drop (length prev) (handleFilesAdded uuid objectURL files prev)) = files
   \<and> map name (drop (length prev) (handleFilesAdded uuid objectURL files prev))
       = map (\<lambda>f. removeExtension (file_name f)) files
   \<and> map id' (drop (length prev) (handleFilesAdded uuid objectURL files prev))
       = map uuid [0 ..< length files]
   \<and> map url (drop (length prev) (handleFilesAdded uuid objectURL files prev))
       = map objectURL [0 ..< length files]
   \<and> length (addSongsSeq calls []) = sum_list (map (\<lambda>(u, ou, fs). length fs) calls)
   \<and> map file' (addSongsSeq calls []) = concat (map (\<lambda>(u, ou, fs). fs) calls)
   \<and> map name (addSongsSeq calls [])
       = map (\<lambda>f. removeExtension (file_name f)) (concat (map (\<lambda>(u, ou, fs). fs) calls))
   \<and> take (length ss) (addSongsSeq calls ss) = ss
   \<and> (ext \<noteq> [] \<and> CHR ''.'' \<notin> set ext \<and> CHR ''/'' \<notin> set ext
        \<longrightarrow> removeExtension (base @ ''.'' @ ext) = base)
   \<and> (CHR ''.'' \<notin> set base \<longrightarrow> removeExtension base = base)"
  using newSongs_ids [of uuid objectURL 0 files] newSongs_urls [of uuid objectURL 0 files]
  by (simp add: handleFilesAdded_append newSongs_files newSongs_names 
      addSongsSeq_length addSongsSeq_files addSongsSeq_names addSongsSeq_prefix
      removeExtension_strip removeExtension_none del: map_map)

theorem C9_uploads_append_in_order_witness:
  "''mp3'' \<noteq> [] \<and> CHR ''.'' \<notin> set ''mp3'' \<and> CHR ''/'' \<notin> set ''mp3''
   \<and> removeExtension (''Jingle Bells'' @ ''.'' @ ''mp3'') = ''Jingle Bells''
   \<and> CHR ''.'' \<notin> set ''Jingle Bells''
   \<and> removeExtension ''Jingle Bells'' = ''Jingle Bells''
   \<and> length (addSongsSeq [(\<lambda>k. ''u'', \<lambda>k. ''blob:u'', [file' songA, file' songB]),
                            (\<lambda>k. ''v'', \<lambda>k. ''blob:v'', [file' songC])] []) = 3"
  using C9_uploads_append_in_order [where ext = "''mp3''" and base = "''Jingle Bells''"
      and prev = "[]" and files = "[]" and ss = "[]" and uuid = "\<lambda>k. ''u''"
      and objectURL = "\<lambda>k. ''blob:u''"
      and calls = "[(\<lambda>k. ''u'', \<lambda>k. ''blob:u'', [file' songA, file' songB]),
                    (\<lambda>k. ''v'', \<lambda>k. ''blob:v'', [file' songC])]"]
  by simp

section \<open>Theorems: reorder\<close>

lemma findIndexFrom_absent:
  assumes "\<forall>x \<in> set xs. \<not> p x"
  shows "findIndexFrom p k xs = - 1"
  using assms by (induction xs arbitrary: k) simp_all

lemma findIndexFrom_present:
  assumes "\<exists>x \<in> set xs. p x"
  shows "findIndexFrom p k xs = k + int (length (takeWhile (\<lambda>x. \<not> p x) xs))"
  using assms
proof (induction xs arbitrary: k)
  case Nil
  then show ?case by simp
next
  case (Cons a xs)
  show ?case
  proof (cases "p a")
    case True
    then show ?thesis by simp
  next
    case False
    with Cons.prems have "\<exists>x \<in> set xs. p x" by simp
    from Cons.IH [OF this, of "k + 1"] False show ?thesis by simp
  qed
qed

lemma findIndex_absent:
  assumes "i \<notin> f ` set xs"
  shows "findIndex (\<lambda>x. f x = i) xs = - 1"
  unfolding findIndex_def using assms by (intro findIndexFrom_absent) auto

lemma findIndex_present:
  assumes "i \<in> f ` set xs"
  obtains n where "findIndex (\<lambda>x. f x = i) xs = int n" and "n < length xs"
    and "f (xs ! n) = i" and "\<forall>j < n. f (xs ! j) \<noteq> i"
proof -
  let ?n = "length (takeWhile (\<lambda>x. f x \<noteq> i) xs)"
  have ex: "\<exists>x \<in> set xs. f x = i" using assms by auto
  have 1: "findIndex (\<lambda>x. f x = i) xs = int ?n"
    unfolding findIndex_def using findIndexFrom_present [of xs "\<lambda>x. f x = i" 0] ex by simp
  have "takeWhile (\<lambda>x. f x \<noteq> i) xs \<noteq> xs"
    using ex by (simp add: takeWhile_eq_all_conv)
  then have "?n \<noteq> length xs"
    by (metis takeWhile_eq_take take_all_iff order_refl)
  then have 2: "?n < length xs"
    using length_takeWhile_le [of "\<lambda>x. f x \<noteq> i" xs] by simp
  have 3: "f (xs ! ?n) = i"
    using nth_length_takeWhile [OF 2] by simp
  have 4: "\<forall>j < ?n. f (xs ! j) \<noteq> i"
    using nth_mem [of _ "takeWhile (\<lambda>x. f x \<noteq> i) xs"] 
    by (metis (mono_tags, lifting) set_takeWhileD takeWhile_nth)
  from 1 2 3 4 that show thesis by blast
qed

lemma findIndex_unique:
  assumes "distinct (map f xs)" and "n < length xs" and "f (xs ! n) = i"
  shows "findIndex (\<lambda>x. f x = i) xs = int n"
proof -
  have "i \<in> f ` set xs" using assms(2,3) by (metis imageI nth_mem)
  then obtain m where m: "findIndex (\<lambda>x. f x = i) xs = int m" "m < length xs" "f (xs ! m) = i"
    by (rule findIndex_present)
  have "map f xs ! m = map f xs ! n" using m assms by simp
  moreover have "m < length (map f xs)" "n < length (map f xs)" using m assms by simp_all
  ultimately have "m = n"
    using assms(1) nth_eq_iff_index_eq by blast
  with m show ?thesis by simp
qed

lemma splice_remove_one:
  assumes "f < length ys"
  shows "splice ys (int f) 1 [] = ([ys ! f], take f ys @ drop (Suc f) ys)"
  using assms
  by (simp add: splice_def Let_def min_def take_Suc_conv_app_nth nat_add_distrib)

lemma splice_insert_one:
  assumes "t \<le> length ys"
  shows "snd (splice ys (int t) 0 [x]) = take t ys @ [x] @ drop t ys"
  using assms by (simp add: splice_def Let_def min_def)

lemma arrayMove_in_range:
  assumes "f < length xs" and "t < length xs"
  shows "arrayMove xs (int f) (int t) = map Some (relocate xs f t)"
proof -
  let ?r = "take f xs @ drop (Suc f) xs"
  have 1: "splice (map Some xs) (int f) 1 [] = ([Some (xs ! f)], map Some ?r)"
    using assms(1) by (simp add: splice_remove_one take_map drop_map)
  have "t \<le> length (map Some ?r)"
    using assms by simp
  then have 2: "snd (splice (map Some ?r) (int t) 0 [Some (xs ! f)])
           = take t (map Some ?r) @ [Some (xs ! f)] @ drop t (map Some ?r)"
    by (rule splice_insert_one)
  have 3: "take t (map Some ?r) @ [Some (xs ! f)] @ drop t (map Some ?r) = map Some (relocate xs f t)"
    unfolding relocate_def
    by (simp only: take_map drop_map) (simp del: take_append drop_append)
  show ?thesis
    unfolding arrayMove_def Let_def 1 using 2 3 by simp
qed

lemma relocate_mset:
  assumes "f < length xs"
  shows "mset (relocate xs f t) = mset xs"
proof -
  let ?r = "take f xs @ drop (Suc f) xs"
  have "mset (relocate xs f t) = mset (take t ?r @ drop t ?r) + {#xs ! f#}"
    unfolding relocate_def by (simp del: append_take_drop_id take_append drop_append)
  also have "\<dots> = mset ?r + {#xs ! f#}" by (simp only: append_take_drop_id)
  also have "\<dots> = mset (take f xs @ xs ! f # drop (Suc f) xs)" by simp
  also have "\<dots> = mset xs" using id_take_nth_drop [OF assms] by simp
  finally show ?thesis .
qed

lemma relocate_length:
  assumes "f < length xs"
  shows "length (relocate xs f t) = length xs"
  using relocate_mset [OF assms, of t] by (metis size_mset)

lemma removed_nth:
  assumes "f < length xs" and "j < length xs - 1"
  shows "(take f xs @ drop (Suc f) xs) ! j = (if j < f then xs ! j else xs ! (j + 1))"
  using assms by (simp add: nth_append min_def)

lemma relocate_nth:
  assumes "f < length xs" and "t < length xs" and "k < length xs"
  shows "relocate xs f t ! k =
     (if k = t then xs ! f
      else if f \<le> k \<and> k < t then xs ! (k + 1)
      else if t < k \<and> k \<le> f then xs ! (k - 1)
      else xs ! k)"
proof -
  let ?r = "take f xs @ drop (Suc f) xs"
  have len: "length ?r = length xs - 1" using assms(1) by simp
  have lt: "length (take t ?r) = t" using assms len by simp
  consider "k < t" | "k = t" | "t < k" by linarith
  then show ?thesis
  proof cases
    case 1
    then have "relocate xs f t ! k = ?r ! k"
      unfolding relocate_def using lt by (simp add: nth_append del: take_append drop_append)
    also have "\<dots> = (if k < f then xs ! k else xs ! (k + 1))"
      using 1 assms by (intro removed_nth) simp_all
    finally show ?thesis using 1 by auto
  next
    case 2
    then show ?thesis
      unfolding relocate_def using lt by (simp add: nth_append del: take_append drop_append)
  next
    case 3
    then have "relocate xs f t ! k = drop t ?r ! (k - t - 1)"
      unfolding relocate_def using lt
      by (simp add: nth_append nth_Cons' del: take_append drop_append)
    also have "\<dots> = ?r ! (k - 1)"
      using 3 assms len by (simp del: take_append drop_append)
    also have "\<dots> = (if k - 1 < f then xs ! (k - 1) else xs ! (k - 1 + 1))"
      using 3 assms by (intro removed_nth) simp_all
    finally show ?thesis using 3 by auto
  qed
qed



lemma relocate_without:
  assumes "f < length xs" and "t < length xs"
  shows "take t (relocate xs f t) @ drop (Suc t) (relocate xs f t) = take f xs @ drop (Suc f) xs"
proof -
  define r where "r = take f xs @ drop (Suc f) xs"
  define a where "a = take t r"
  define b where "b = drop t r"
  have "length r = length xs - 1" using assms(1) by (simp add: r_def)
  then have lt: "length a = t" using assms(2) by (simp add: a_def)
  have "relocate xs f t = a @ xs ! f # b"
    by (simp add: relocate_def r_def a_def b_def)
  moreover have "take t (a @ xs ! f # b) = a" using lt by simp
  moreover have "drop (Suc t) (a @ xs ! f # b) = b" using lt by simp
  moreover have "a @ b = r" by (simp add: a_def b_def)
  ultimately show ?thesis by (simp add: r_def)
qed

text \<open>
  Claim C2.  When the dragged id and the target id are different and both in the list,
  the handler returns a permutation of the songs in which the dragged song (the first
  with that id) stands at the index the target had before the move; the songs between
  the two indices shift by one towards the old index, the songs outside keep their
  index, and without the moved song the order is the old one.  With unique ids, looking
  the id up again gives the index the target had.
\<close>

theorem C2_move_places_song_at_target:
  assumes "over ev = Some t" and "active ev \<noteq> t"
    and "active ev \<in> id' ` set items" and "t \<in> id' ` set items"
  shows "\<exists>ys oldIndex newIndex.
       handleDragEnd ev items = map Some ys
     \<and> findIndex (\<lambda>s. id' s = active ev) items = int oldIndex \<and> oldIndex < length items
     \<and> findIndex (\<lambda>s. id' s = t) items = int newIndex \<and> newIndex < length items
     \<and> mset ys = mset items
     \<and> ys ! newIndex = items ! oldIndex
     \<and> id' (ys ! newIndex) = active ev
     \<and> (\<forall>k < length items. k \<noteq> newIndex \<longrightarrow>
          ys ! k = (if oldIndex \<le> k \<and> k < newIndex then items ! (k + 1)
                    else if newIndex < k \<and> k \<le> oldIndex then items ! (k - 1)
                    else items ! k))
     \<and> take newIndex ys @ drop (Suc newIndex) ys = take oldIndex items @ drop (Suc oldIndex) items
     \<and> (distinct (map id' items) \<longrightarrow> findIndex (\<lambda>s. id' s = active ev) ys = int newIndex)"
proof -
  obtain f where f: "findIndex (\<lambda>s. id' s = active ev) items = int f" "f < length items"
      "id' (items ! f) = active ev"
    using assms(3) by (rule findIndex_present)
  obtain n where n: "findIndex (\<lambda>s. id' s = t) items = int n" "n < length items"
    using assms(4) by (rule findIndex_present)
  let ?ys = "relocate items f n"
  have run: "handleDragEnd ev items = map Some ?ys"
    using assms(1,2) f n by (simp add: handleDragEnd_def arrayMove_in_range)
  have perm: "mset ?ys = mset items"
    using f(2) by (rule relocate_mset)
  have len: "length ?ys = length items"
    using f(2) by (rule relocate_length)
  have at: "?ys ! n = items ! f"
    using relocate_nth [OF f(2) n(2) n(2)] by simp
  have others: "\<forall>k < length items. k \<noteq> n \<longrightarrow>
          ?ys ! k = (if f \<le> k \<and> k < n then items ! (k + 1)
                    else if n < k \<and> k \<le> f then items ! (k - 1)
                    else items ! k)"
    using relocate_nth [OF f(2) n(2)] by simp
  have rest: "take n ?ys @ drop (Suc n) ?ys = take f items @ drop (Suc f) items"
    using f(2) n(2) by (rule relocate_without)
  have found: "findIndex (\<lambda>s. id' s = active ev) ?ys = int n" if "distinct (map id' items)"
  proof -
    have "mset (map id' ?ys) = mset (map id' items)"
      using perm by simp
    then have "distinct (map id' ?ys)"
      using that by (metis mset_eq_imp_distinct_iff)
    moreover have "n < length ?ys" using len n(2) by simp
    moreover have "id' (?ys ! n) = active ev" using at f(3) by simp
    ultimately show ?thesis by (rule findIndex_unique)
  qed
  from run f n perm at others rest found show ?thesis
    by (intro exI [of _ ?ys] exI [of _ f] exI [of _ n]) simp
qed


theorem C2_move_places_song_at_target_witness:
  "over \<lparr>active = ''a'', over = Some ''c''\<rparr> = Some ''c''
   \<and> active \<lparr>active = ''a'', over = Some ''c''\<rparr> \<noteq> ''c''
   \<and> active \<lparr>active = ''a'', over = Some ''c''\<rparr> \<in> id' ` set [songA, songB, songC]
   \<and> ''c'' \<in> id' ` set [songA, songB, songC]
   \<and> distinct (map id' [songA, songB, songC])
   \<and> (\<exists>ys. handleDragEnd \<lparr>active = ''a'', over = Some ''c''\<rparr> [songA, songB, songC] = map Some ys
          \<and> mset ys = mset [songA, songB, songC]
          \<and> ys ! 2 = songA
          \<and> ys ! 0 = songB
          \<and> findIndex (\<lambda>s. id' s = ''a'') ys = 2)"
proof -
  let ?ev = "\<lparr>active = ''a'', over = Some ''c''\<rparr>"
  let ?L = "[songA, songB, songC]"
  have ids: "id' songA = ''a''" "id' songB = ''b''" "id' songC = ''c''"
    by (simp_all add: songA_def songB_def songC_def mkSong_def)
  have h1: "over ?ev = Some ''c''" and h2: "active ?ev \<noteq> ''c''" by simp_all
  have h3: "active ?ev \<in> id' ` set ?L" and h4: "''c'' \<in> id' ` set ?L"
    by (simp_all add: ids)
  have h5: "distinct (map id' ?L)" by (simp add: ids)
  have i0: "findIndex (\<lambda>s. id' s = active ?ev) ?L = 0"
    and i2: "findIndex (\<lambda>s. id' s = ''c'') ?L = 2"
    by (simp_all add: findIndex_def ids)
  from C2_move_places_song_at_target [OF h1 h2 h3 h4]
  obtain ys oldIndex newIndex where r:
    "handleDragEnd ?ev ?L = map Some ys"
    "findIndex (\<lambda>s. id' s = active ?ev) ?L = int oldIndex"
    "findIndex (\<lambda>s. id' s = ''c'') ?L = int newIndex"
    "mset ys = mset ?L"
    "ys ! newIndex = ?L ! oldIndex"
    "\<forall>k < length ?L. k \<noteq> newIndex \<longrightarrow>
          ys ! k = (if oldIndex \<le> k \<and> k < newIndex then ?L ! (k + 1)
                    else if newIndex < k \<and> k \<le> oldIndex then ?L ! (k - 1)
                    else ?L ! k)"
    "distinct (map id' ?L) \<longrightarrow> findIndex (\<lambda>s. id' s = active ?ev) ys = int newIndex"
    by blast
  from r(2) i0 have o: "oldIndex = 0" by simp
  from r(3) i2 have n: "newIndex = 2" by simp
  from r(5) have y2: "ys ! 2 = songA" by (simp add: o n)
  from r(6) have y0: "ys ! 0 = songB" by (simp add: o n)
  from r(7) h5 have f: "findIndex (\<lambda>s. id' s = ''a'') ys = 2" by (simp add: n)
  from r(1) r(4) y2 y0 f h1 h2 h3 h4 h5 show ?thesis by blast
qed

text \<open>
  The guard of \<open>handleDragEnd\<close>: without a drop target, or with the song dropped on
  itself, \<open>setSongs\<close> is not called and the list stays as it is.
\<close>

lemma handleDragEnd_same:
  assumes "over ev = None \<or> over ev = Some (active ev)"
  shows "handleDragEnd ev items = map Some items"
  using assms by (auto simp: handleDragEnd_def)

end
